theory Spec2Isabelle
  imports Main "HOL-Library.Multiset" "HOL-Library.AList"
begin

section \<open>Replicated collaborator update (zboxcore/sdk/collaboratorworker.go)\<close>

type_synonym error = string

text \<open>
  Modelled from the spec: the type \<open>Consensus\<close> with its methods \<open>Done\<close> and
  \<open>isConsensusOk\<close> is used by collaboratorworker.go but declared elsewhere. The spec
  describes it as the Quorum \<open>{achievedCount, requiredThreshold}\<close>: \<open>Done\<close> increments
  \<open>achievedCount\<close>, and the decision is \<open>achievedCount \<ge> requiredThreshold\<close>.
\<close>

record Consensus =
  achievedCount :: int
  requiredThreshold :: int

definition Done :: "Consensus \<Rightarrow> Consensus" where
  "Done c = c\<lparr>achievedCount := achievedCount c + 1\<rparr>"

definition isConsensusOk :: "Consensus \<Rightarrow> bool" where
  "isConsensusOk c = (requiredThreshold c \<le> achievedCount c)"

text \<open>
  What one replica (blobber) does to the request sent to it. \<open>newRequest\<close> is the
  result of \<open>zboxutil.NewCollaboratorRequest\<close> / \<open>zboxutil.DeleteCollaboratorRequest\<close>
  for this replica (\<open>Some e\<close>: construction failed with \<open>e\<close>); \<open>answer\<close> is what the
  HTTP call yields: a transport error or timeout (\<open>Inl\<close>), or a response with
  its status code (\<open>Inr\<close>).
\<close>

record StorageNode =
  newRequest :: "error option"
  answer :: "error + int"

text \<open>
  The closure passed to \<open>zboxutil.HttpDo\<close> in \<open>updateCollaboratorToBlobber\<close> (lines 61-75)
  and in \<open>removeCollaboratorFromBlobber\<close> (lines 117-131): the list holds the values it
  sends on \<open>rspCh\<close>, the second component is the error it returns.
\<close>

definition StatusOK :: int where
  "StatusOK = 200"

fun handler :: "error + int \<Rightarrow> bool list \<times> error option" where
  "handler (Inl err) = ([False], Some err)"
| "handler (Inr status) =
     (if status = StatusOK then ([True], None) else ([False], None))"

text \<open>
  Modelled from the spec: \<open>zboxutil.HttpDo\<close> is not among the sources. It runs the
  request under the replica's timeout context and hands the response, or the error of
  a failed or timed-out call, to the closure exactly once (one Outcome per replica).
\<close>

definition HttpDo :: "error + int \<Rightarrow> (error + int \<Rightarrow> bool list \<times> error option) \<Rightarrow> bool list \<times> error option" where
  "HttpDo res f = f res"

text \<open>
  \<open>updateCollaboratorToBlobber\<close> (lines 43-80), as the list of booleans the goroutine
  sends on \<open>rspCh\<close> before \<open>wg.Done()\<close>. When the request cannot be constructed the
  function logs and returns (lines 54-57) and nothing is sent.
\<close>

definition updateCollaboratorToBlobber :: "StorageNode \<Rightarrow> bool list" where
  "updateCollaboratorToBlobber blobber =
     (case newRequest blobber of
        Some err \<Rightarrow> []
      | None \<Rightarrow> fst (HttpDo (answer blobber) handler))"

text \<open>\<open>removeCollaboratorFromBlobber\<close> (lines 100-132).\<close>

definition removeCollaboratorFromBlobber :: "StorageNode \<Rightarrow> bool list" where
  "removeCollaboratorFromBlobber blobber =
     (case newRequest blobber of
        Some err \<Rightarrow> []
      | None \<Rightarrow> fst (HttpDo (answer blobber) handler))"

text \<open>
  The goroutines run in any order; after \<open>req.wg.Wait()\<close> all of them have finished, so
  the buffered channel (capacity \<open>numList\<close>) holds what they sent, in some order of
  arrival. \<open>arrival work Blobbers rspCh\<close> says that \<open>rspCh\<close> is such a content.
\<close>

definition arrival :: "(StorageNode \<Rightarrow> bool list) \<Rightarrow> StorageNode list \<Rightarrow> bool list \<Rightarrow> bool" where
  "arrival work Blobbers rspCh = (mset rspCh = mset (concat (map work Blobbers)))"

text \<open>
  The receive loop of lines 34-39 (and 91-96): \<open>numList\<close> receives from \<open>rspCh\<close>. All
  senders have finished, so a receive on the empty channel blocks forever: the
  function does not return, which is the value \<open>None\<close>.
\<close>

fun receive :: "nat \<Rightarrow> bool list \<Rightarrow> Consensus \<Rightarrow> Consensus option" where
  "receive 0 rspCh consensus = Some consensus"
| "receive (Suc n) [] consensus = None"
| "receive (Suc n) (resp # rspCh) consensus =
     receive n rspCh (if resp then Done consensus else consensus)"

record CollaboratorRequest =
  Blobbers :: "StorageNode list"
  consensus :: Consensus

text \<open>
  \<open>UpdateCollaboratorToBlobbers\<close> (lines 25-41) and \<open>RemoveCollaboratorFromBlobbers\<close>
  (lines 82-98), given the order \<open>rspCh\<close> in which the goroutines' values arrived.
\<close>

definition UpdateCollaboratorToBlobbers :: "CollaboratorRequest \<Rightarrow> bool list \<Rightarrow> bool option" where
  "UpdateCollaboratorToBlobbers req rspCh =
     (let numList = length (Blobbers req) in
      map_option isConsensusOk (receive numList rspCh (consensus req)))"

definition RemoveCollaboratorFromBlobbers :: "CollaboratorRequest \<Rightarrow> bool list \<Rightarrow> bool option" where
  "RemoveCollaboratorFromBlobbers req rspCh =
     (let numList = length (Blobbers req) in
      map_option isConsensusOk (receive numList rspCh (consensus req)))"



definition replica :: "error + int \<Rightarrow> StorageNode" where
  "replica a = \<lparr>newRequest = None, answer = a\<rparr>"



definition unbuildable :: StorageNode where
  "unbuildable = \<lparr>newRequest = Some ''invalid url'', answer = Inr 200\<rparr>"

section \<open>Parallel HTTP dispatch (package resty)\<close>

text \<open>
  Readers. The caller's body is an \<open>io.Reader\<close> object living at an address of the
  heap, which maps each reader to the bytes it has not yet delivered; reading consumes
  them. \<open>Buffer\<close> stands for the three types net/http knows how to replay
  (\<open>*bytes.Buffer\<close>, \<open>*bytes.Reader\<close>, \<open>*strings.Reader\<close>), \<open>Stream\<close> for any other
  reader.
\<close>

type_synonym heap = "nat \<Rightarrow> string"

datatype Reader = Buffer nat | Stream nat

text \<open>
  A request body (\<open>io.ReadCloser\<close>): either a wrapper around the caller's reader
  at that address, or a private reader over a snapshot of bytes, as \<open>GetBody\<close> makes.
\<close>

datatype ReadCloser = Caller nat | Snapshot string

record Request =
  Method :: string
  URL :: string
  Header :: "(string \<times> string) list"
  Body :: "ReadCloser option"
  GetBody :: "string option"

text \<open>
  \<open>resp.Body\<close>: \<open>None\<close> is a nil body, \<open>Some (Inr buf)\<close> a body that reads as
  \<open>buf\<close>, \<open>Some (Inl e)\<close> a body whose read fails with \<open>e\<close>.
\<close>

record Response =
  StatusCode :: int
  RespBody :: "(error + string) option"

record Result =
  Request :: "Request option"
  Response :: "Response option"
  ResponseBody :: string
  Err :: "error option"

text \<open>
  The \<open>Client\<close> interface: \<open>client req i\<close> is what the \<open>i\<close>-th call of \<open>Do\<close> on
  \<open>req\<close> returns, the Go pair \<open>(resp, err)\<close>. A \<open>Handle\<close> returns nil (\<open>None\<close>) to
  accept a result; the cancel function it is given acts on the context, whose
  completion is an event of the reducer's \<open>select\<close>.
\<close>

type_synonym Client = "Request \<Rightarrow> int \<Rightarrow> Response option \<times> error option"

type_synonym Handle = "Result \<Rightarrow> error option"

record Resty =
  qty :: int
  client :: Client
  handle :: "Handle option"
  requestInterceptor :: "(Request \<Rightarrow> Request \<times> error option) option"
  retry :: int
  header :: "(string \<times> string) list"

text \<open>What a goroutine does, in order.\<close>

datatype event =
    ClientDo int Request
  | BodyClose
  | Sleep int nat
  | ReadAll
  | Send Result
  | Go Request

text \<open>A run of Go code either completes with a value or panics.\<close>

datatype 'a go = Ok 'a | Panic

definition MethodPost :: string where "MethodPost = ''POST''"
definition MethodPut :: string where "MethodPut = ''PUT''"
definition StatusCreated :: int where "StatusCreated = 201"
definition StatusAccepted :: int where "StatusAccepted = 202"
definition StatusNoContent :: int where "StatusNoContent = 204"
definition StatusTooManyRequests :: int where "StatusTooManyRequests = 429"

text \<open>
  \<open>http.NewRequest\<close> of net/http, as far as \<open>Do\<close> and \<open>httpDo\<close> depend on it. It
  fails on a method or URL it cannot parse (\<open>parse\<close>, a parameter). Otherwise the
  request wraps the reader it is given: the body is the caller's reader itself, not
  a copy. For a \<open>Buffer\<close> it also sets \<open>GetBody\<close> to replay a snapshot of the unread
  bytes, and uses \<open>http.NoBody\<close> when there are none; for any other reader \<open>GetBody\<close>
  stays nil.
\<close>

definition NewRequest ::
  "(string \<Rightarrow> string \<Rightarrow> error option) \<Rightarrow> heap \<Rightarrow> string \<Rightarrow> string \<Rightarrow> Reader option \<Rightarrow> error + Request" where
  "NewRequest parse h method url body =
     (case parse method url of
        Some e \<Rightarrow> Inl e
      | None \<Rightarrow>
          Inr \<lparr>Method = method, URL = url, Header = [],
               Body = (case body of
                         None \<Rightarrow> None
                       | Some (Stream a) \<Rightarrow> Some (Caller a)
                       | Some (Buffer a) \<Rightarrow> if h a = [] then Some (Snapshot []) else Some (Caller a)),
               GetBody = (case body of
                            None \<Rightarrow> None
                          | Some (Stream a) \<Rightarrow> None
                          | Some (Buffer a) \<Rightarrow> Some (h a))\<rparr>)"

text \<open>\<open>req.Header.Set(key, value)\<close>.\<close>

definition Header_Set :: "string \<Rightarrow> string \<Rightarrow> Request \<Rightarrow> Request" where
  "Header_Set key v req = req\<lparr>Header := AList.update key v (Header req)\<rparr>"

text \<open>
  The loop of \<open>Do\<close> (lines 112-135) over the remaining \<open>urls\<close>, as the events it
  causes in order: for each url a \<open>Send\<close> on \<open>r.done\<close> followed by \<open>continue\<close>, or
  the start of a goroutine (\<open>Go\<close>). Every iteration is handed the same \<open>bodyReader\<close>.
\<close>

fun Do_loop ::
  "Resty \<Rightarrow> (string \<Rightarrow> string \<Rightarrow> error option) \<Rightarrow> heap \<Rightarrow> string \<Rightarrow> Reader option \<Rightarrow> string list \<Rightarrow> event list" where
  "Do_loop r parse h method bodyReader [] = []"
| "Do_loop r parse h method bodyReader (url # urls) =
     (case NewRequest parse h method url bodyReader of
        Inl e \<Rightarrow>
          Send \<lparr>Request = None, Response = None, ResponseBody = [], Err = Some e\<rparr>
            # Do_loop r parse h method bodyReader urls
      | Inr req0 \<Rightarrow>
          (let req1 = fold (\<lambda>(key, v). Header_Set key v) (header r) req0;
               req2 = Header_Set ''Connection'' ''keep-alive'' req1
           in case requestInterceptor r of
                None \<Rightarrow> Go req2 # Do_loop r parse h method bodyReader urls
              | Some f \<Rightarrow>
                  (case f req2 of
                     (req3, Some e) \<Rightarrow>
                       Send \<lparr>Request = Some req3, Response = None, ResponseBody = [], Err = Some e\<rparr>
                         # Do_loop r parse h method bodyReader urls
                   | (req3, None) \<Rightarrow> Go req3 # Do_loop r parse h method bodyReader urls)))"

text \<open>
  \<open>Do\<close> (lines 104-138): sets \<open>qty\<close>, makes the channel \<open>r.done\<close> with capacity \<open>qty\<close>
  and runs the loop. The context, its cancel function and the channel are not fields
  of the model: the channel is the sequence of \<open>Send\<close> events, and the context shows in
  what the client returns and in the rounds of the reducers. The requests are built on
  the heap as it stands when \<open>Do\<close> is called, before a goroutine has read from the
  body.
\<close>

definition Do ::
  "Resty \<Rightarrow> (string \<Rightarrow> string \<Rightarrow> error option) \<Rightarrow> heap \<Rightarrow> string \<Rightarrow> Reader option \<Rightarrow> string list \<Rightarrow> Resty \<times> event list" where
  "Do r parse h method body urls =
     (let r' = r\<lparr>qty := int (length urls)\<rparr>;
          bodyReader = body
      in (r', Do_loop r' parse h method bodyReader urls))"

definition DoPost :: "Resty \<Rightarrow> (string \<Rightarrow> string \<Rightarrow> error option) \<Rightarrow> heap \<Rightarrow> Reader option \<Rightarrow> string list \<Rightarrow> Resty \<times> event list" where
  "DoPost r parse h body urls = Do r parse h MethodPost body urls"

definition DoPut :: "Resty \<Rightarrow> (string \<Rightarrow> string \<Rightarrow> error option) \<Rightarrow> heap \<Rightarrow> Reader option \<Rightarrow> string list \<Rightarrow> Resty \<times> event list" where
  "DoPut r parse h body urls = Do r parse h MethodPut body urls"

text \<open>The test of lines 152 and 181.\<close>

definition has_replay_body :: "Request \<Rightarrow> bool" where
  "has_replay_body request =
     ((Method request = MethodPost \<or> Method request = MethodPut) \<and> Body request \<noteq> None)"

text \<open>The success test of lines 159-162.\<close>

definition is_success :: "Response option \<Rightarrow> bool" where
  "is_success response =
     (case response of
        None \<Rightarrow> False
      | Some rp \<Rightarrow> StatusCode rp = StatusOK \<or> StatusCode rp = StatusCreated \<or>
                   StatusCode rp = StatusAccepted \<or> StatusCode rp = StatusNoContent)"

text \<open>
  The state of the retry loop: the request (its body is replaced between attempts),
  the last \<open>resp\<close> and \<open>err\<close>, and the events so far.
\<close>

record attempt =
  the_request :: Request
  the_resp :: "Response option"
  the_err :: "error option"
  trace :: "event list"

datatype iteration = Break attempt | Continue attempt

text \<open>
  The body of the loop (lines 151-183) at counter \<open>i\<close>. Calling a nil \<open>GetBody\<close>
  (line 154) panics.
\<close>

definition has_body :: "Response option \<Rightarrow> bool" where
  "has_body response = (case response of None \<Rightarrow> False | Some rp \<Rightarrow> RespBody rp \<noteq> None)"

definition too_many :: "Response option \<Rightarrow> bool" where
  "too_many response = (case response of None \<Rightarrow> False | Some rp \<Rightarrow> StatusCode rp = StatusTooManyRequests)"

definition iterate :: "Client \<Rightarrow> int \<Rightarrow> int \<Rightarrow> Request \<Rightarrow> event list \<Rightarrow> iteration go" where
  "iterate c rt i rq tr =
     (if has_replay_body rq \<and> GetBody rq = None then Panic
      else
        let bodyCopy = (if has_replay_body rq then map_option Snapshot (GetBody rq) else None);
            (rp, e) = c rq i;
            tr1 = tr @ [ClientDo i rq]
        in if is_success rp
           then Ok (Break \<lparr>the_request = rq, the_resp = rp, the_err = e, trace = tr1\<rparr>)
           else
             let tr2 = (if has_body rp \<and> i < rt then tr1 @ [BodyClose] else tr1)
             in if i = rt
                then Ok (Break \<lparr>the_request = rq, the_resp = rp, the_err = e, trace = tr2\<rparr>)
                else
                  let tr3 = (if too_many rp then tr2 @ [Sleep i 1] else tr2);
                      rq' = (if has_replay_body rq then rq\<lparr>Body := bodyCopy\<rparr> else rq)
                  in Ok (Continue \<lparr>the_request = rq', the_resp = rp, the_err = e, trace = tr3\<rparr>))"

text \<open>
  The loop \<open>for i := 1; ; i++\<close> (line 150) has no bound of its own; not leaving it
  is the value \<open>None\<close>.
\<close>

partial_function (option) attempts :: "Client \<Rightarrow> int \<Rightarrow> int \<Rightarrow> Request \<Rightarrow> event list \<Rightarrow> attempt go option" where
  "attempts c rt i rq tr =
     (case iterate c rt i rq tr of
        Panic \<Rightarrow> Some Panic
      | Ok (Break a) \<Rightarrow> Some (Ok a)
      | Ok (Continue a) \<Rightarrow> attempts c rt (i + 1) (the_request a) (trace a))"

text \<open>
  The goroutine of \<open>httpDo\<close> (lines 144-204): the attempts, then reading the body of
  the last response (\<open>ioutil.ReadAll\<close> on a nil body panics) and the one send on
  \<open>r.done\<close>. The value is the goroutine's trace.
\<close>

definition finish :: "attempt \<Rightarrow> event list go" where
  "finish a =
     (let result = \<lparr>Request = Some (the_request a), Response = the_resp a, ResponseBody = [], Err = the_err a\<rparr>
      in case the_resp a of
           None \<Rightarrow> Ok (trace a @ [Send result])
         | Some rp \<Rightarrow>
             (case RespBody rp of
                None \<Rightarrow> Panic
              | Some (Inl e) \<Rightarrow> Ok (trace a @ [ReadAll, Send (result\<lparr>Err := Some e\<rparr>)])
              | Some (Inr buf) \<Rightarrow>
                  Ok (trace a @ [ReadAll, BodyClose, Send (result\<lparr>ResponseBody := buf\<rparr>)])))"

definition httpDo :: "Resty \<Rightarrow> Request \<Rightarrow> event list go option" where
  "httpDo r req =
     (case (if 0 < retry r
            then attempts (client r) (retry r) 1 req []
            else (let (rp, e) = client r req 1
                  in Some (Ok \<lparr>the_request = req, the_resp = rp, the_err = e, trace = [ClientDo 1 req]\<rparr>))) of
        None \<Rightarrow> None
      | Some Panic \<Rightarrow> Some Panic
      | Some (Ok a) \<Rightarrow> Some (finish a))"

declare attempts.simps [code]

section \<open>Reducers\<close>

text \<open>
  One round of the \<open>select\<close> of \<open>Wait\<close> and \<open>First\<close>: the context is done, or a
  result is received from \<open>r.done\<close>. A reducer is run on the sequence of rounds it
  meets; when neither case ever becomes ready (the sequence is used up) the
  \<open>select\<close> blocks for good and the reducer does not return: \<open>None\<close>. A reducer
  that returns gives back the rounds it has not consumed.
\<close>

datatype select = CtxDone | Receive Result

fun Wait_loop :: "Resty \<Rightarrow> select list \<Rightarrow> error list \<Rightarrow> int \<Rightarrow> (error list \<times> select list) option" where
  "Wait_loop r [] errs done = None"
| "Wait_loop r (CtxDone # rest) errs done = Some (errs, rest)"
| "Wait_loop r (Receive result # rest) errs done =
     (let errs' = (case handle r of
                     Some h \<Rightarrow> (case h result of Some e \<Rightarrow> errs @ [e] | None \<Rightarrow> errs)
                   | None \<Rightarrow> (case Err result of Some e \<Rightarrow> errs @ [e] | None \<Rightarrow> errs));
          done' = done + 1
      in if qty r \<le> done' then Some (errs', rest) else Wait_loop r rest errs' done')"

text \<open>\<open>Wait\<close> (lines 211-254).\<close>

definition Wait :: "Resty \<Rightarrow> select list \<Rightarrow> (error list \<times> select list) option" where
  "Wait r rounds = (if qty r = 0 then Some ([], rounds) else Wait_loop r rounds [] 0)"

text \<open>
  \<open>First\<close> (lines 257-305). Its value is a Go slice: \<open>None\<close> is the nil slice of
  \<open>return nil\<close>, \<open>Some errs\<close> the slice \<open>errs\<close>.
\<close>

fun First_loop :: "Resty \<Rightarrow> select list \<Rightarrow> error list \<Rightarrow> int \<Rightarrow> (error list option \<times> select list) option" where
  "First_loop r [] errs done = None"
| "First_loop r (CtxDone # rest) errs done = Some (Some errs, rest)"
| "First_loop r (Receive result # rest) errs done =
     (case (case handle r of Some h \<Rightarrow> h result | None \<Rightarrow> Err result) of
        None \<Rightarrow> Some (None, rest)
      | Some e \<Rightarrow>
          (let errs' = errs @ [e];
               done' = done + 1
           in if qty r \<le> done' then Some (Some errs', rest) else First_loop r rest errs' done'))"

definition First :: "Resty \<Rightarrow> select list \<Rightarrow> (error list option \<times> select list) option" where
  "First r rounds = (if qty r = 0 then Some (Some [], rounds) else First_loop r rounds [] 0)"

section \<open>Reading traces\<close>

fun calls :: "event list \<Rightarrow> int list" where
  "calls [] = []"
| "calls (ClientDo i rq # tr) = i # calls tr"
| "calls (e # tr) = calls tr"

fun sleeps :: "event list \<Rightarrow> (int \<times> nat) list" where
  "sleeps [] = []"
| "sleeps (Sleep i d # tr) = (i, d) # sleeps tr"
| "sleeps (e # tr) = sleeps tr"

fun sends :: "event list \<Rightarrow> Result list" where
  "sends [] = []"
| "sends (Send res # tr) = res # sends tr"
| "sends (e # tr) = sends tr"

fun spawned :: "event list \<Rightarrow> Request list" where
  "spawned [] = []"
| "spawned (Go rq # tr) = rq # spawned tr"
| "spawned (e # tr) = spawned tr"

text \<open>The request after its body has been replaced by the copy (line 182).\<close>

definition replay :: "Request \<Rightarrow> Request" where
  "replay rq = (if has_replay_body rq then rq\<lparr>Body := map_option Snapshot (GetBody rq)\<rparr> else rq)"

text \<open>The request that attempt \<open>j\<close> sends when the loop holds \<open>rq\<close> at attempt \<open>i\<close>.\<close>

definition request_at :: "int \<Rightarrow> Request \<Rightarrow> int \<Rightarrow> Request" where
  "request_at i rq j = (if j = i then rq else replay rq)"

text \<open>A request whose body, if the loop wants to replay it, can be replayed.\<close>

definition replayable :: "Request \<Rightarrow> bool" where
  "replayable rq = (has_replay_body rq \<longrightarrow> GetBody rq \<noteq> None)"


text \<open>
  A client whose responses all have a body, as \<open>http.Client\<close> guarantees
  (\<open>ioutil.ReadAll\<close> on a nil body panics).
\<close>

definition bodied :: "Client \<Rightarrow> bool" where
  "bodied c = (\<forall>rq i. fst (c rq i) = None \<or> has_body (fst (c rq i)))"



text \<open>The error that reading the body of the final response adds (lines 192-195).\<close>

definition read_error :: "Response option \<Rightarrow> error option" where
  "read_error response =
     (case response of
        None \<Rightarrow> None
      | Some rp \<Rightarrow> (case RespBody rp of Some (Inl e) \<Rightarrow> Some e | _ \<Rightarrow> None))"



text \<open>
  What one target of the batch puts on \<open>r.done\<close>: the result sent by \<open>Do\<close> itself,
  or what the goroutine started for it sends. \<open>None\<close>: the goroutine panics or never
  finishes.
\<close>

definition delivers :: "Resty \<Rightarrow> event \<Rightarrow> Result list option" where
  "delivers r ev =
     (case ev of
        Send res \<Rightarrow> Some [res]
      | Go rq \<Rightarrow> (case httpDo r rq of Some (Ok tr) \<Rightarrow> Some (sends tr) | _ \<Rightarrow> None)
      | _ \<Rightarrow> Some [])"

text \<open>
  Writing a request body to the wire reads it to its end: the bytes sent, and the heap
  afterwards. A reader over the caller's object consumes that object.
\<close>

fun transmit :: "heap \<Rightarrow> ReadCloser option \<Rightarrow> string \<times> heap" where
  "transmit h None = ([], h)"
| "transmit h (Some (Caller a)) = (h a, h(a := []))"
| "transmit h (Some (Snapshot s)) = (s, h)"

text \<open>
  How a reducer judges a received result (lines 234-244 and 280-295): by the handler
  if one is configured, else by the \<open>Err\<close> field alone. \<open>None\<close> accepts the result,
  \<open>Some e\<close> is the error appended to \<open>errs\<close>.
\<close>

definition judge :: "Resty \<Rightarrow> Result \<Rightarrow> error option" where
  "judge r result = (case handle r of Some h \<Rightarrow> h result | None \<Rightarrow> Err result)"

text \<open>The request of a target after the header loop and line 125 of \<open>Do\<close>.\<close>

definition prepare :: "Resty \<Rightarrow> Request \<Rightarrow> Request" where
  "prepare r req0 =
     Header_Set ''Connection'' ''keep-alive'' (fold (\<lambda>(key, v). Header_Set key v) (header r) req0)"

text \<open>Everything the targets of a batch put on \<open>r.done\<close>, target by target.\<close>

definition delivered :: "Resty \<Rightarrow> event list \<Rightarrow> Result list" where
  "delivered r evs = concat (map (\<lambda>ev. case delivers r ev of Some rs \<Rightarrow> rs | None \<Rightarrow> []) evs)"

text \<open>The event that one pass of the loop of \<open>Do\<close> causes for \<open>url\<close>.\<close>

definition target ::
  "Resty \<Rightarrow> (string \<Rightarrow> string \<Rightarrow> error option) \<Rightarrow> heap \<Rightarrow> string \<Rightarrow> Reader option \<Rightarrow> string \<Rightarrow> event" where
  "target r parse h method body url =
     (case NewRequest parse h method url body of
        Inl e \<Rightarrow> Send \<lparr>Request = None, Response = None, ResponseBody = [], Err = Some e\<rparr>
      | Inr req0 \<Rightarrow>
          (case requestInterceptor r of
             None \<Rightarrow> Go (prepare r req0)
           | Some f \<Rightarrow>
               (case f (prepare r req0) of
                  (req3, Some e) \<Rightarrow>
                    Send \<lparr>Request = Some req3, Response = None, ResponseBody = [], Err = Some e\<rparr>
                | (req3, None) \<Rightarrow> Go req3)))"

section \<open>Stub clients and requests\<close>

text \<open>Stub transports of the kind a test plugs in for the \<open>Client\<close> interface.\<close>

definition reply :: "int \<Rightarrow> string \<Rightarrow> Response option \<times> error option" where
  "reply code text = (Some \<lparr>StatusCode = code, RespBody = Some (Inr text)\<rparr>, None)"

definition stub_status :: "int \<Rightarrow> Client" where
  "stub_status code = (\<lambda>rq i. reply code ''body'')"


definition get_req :: "string \<Rightarrow> Request" where
  "get_req url =
     \<lparr>Method = ''GET'', URL = url, Header = [(''Connection'', ''keep-alive'')],
      Body = None, GetBody = None\<rparr>"

definition resty :: "Client \<Rightarrow> int \<Rightarrow> Resty" where
  "resty c rt =
     \<lparr>qty = 0, client = c, handle = None, requestInterceptor = None, retry = rt, header = []\<rparr>"

text \<open>Results as a goroutine sends them, and a handler that accepts status 200 only.\<close>

definition answered :: "int \<Rightarrow> Result" where
  "answered code =
     \<lparr>Request = Some (get_req ''u''), Response = fst (reply code ''body''),
      ResponseBody = ''body'', Err = None\<rparr>"

definition broken :: "error \<Rightarrow> Result" where
  "broken e = \<lparr>Request = Some (get_req ''u''), Response = None, ResponseBody = [], Err = Some e\<rparr>"

definition only_200 :: Handle where
  "only_200 result =
     (case Response result of
        None \<Rightarrow> Some ''no response''
      | Some rp \<Rightarrow> if StatusCode rp = 200 then None else Some ''rejected'')"

definition batch :: "Handle option \<Rightarrow> int \<Rightarrow> Resty" where
  "batch h n =
     \<lparr>qty = n, client = stub_status 200, handle = h, requestInterceptor = None, retry = 3,
      header = []\<rparr>"

text \<open>A parser that rejects one url, a heap with one buffer, and an interceptor.\<close>

definition parse_but :: "string \<Rightarrow> string \<Rightarrow> string \<Rightarrow> error option" where
  "parse_but bad method url = (if url = bad then Some ''invalid url'' else None)"

definition one_buffer :: "string \<Rightarrow> heap" where
  "one_buffer text = (\<lambda>a. if a = 0 then text else [])"

definition deny :: "string \<Rightarrow> Request \<Rightarrow> Request \<times> error option" where
  "deny url rq = (rq, if URL rq = url then Some ''denied'' else None)"

definition guarded :: Resty where
  "guarded = (resty (stub_status 200) 3)\<lparr>requestInterceptor := Some (deny ''c'')\<rparr>"

definition four_targets :: "Resty \<times> event list" where
  "four_targets = Do guarded (parse_but ''b'') (one_buffer []) ''GET'' None [''a'', ''b'', ''c'', ''d'']"

text \<open>A POST of a reader that net/http cannot replay, to one url, with retry limit 3.\<close>

definition post_stream :: Request where
  "post_stream =
     \<lparr>Method = ''POST'', URL = ''u1'', Header = [(''Connection'', ''keep-alive'')],
      Body = Some (Caller 0), GetBody = None\<rparr>"

definition stream_batch :: "Resty \<times> event list" where
  "stream_batch =
     DoPost (resty (stub_status 200) 3) (parse_but ''b'') (one_buffer ''payload'')
       (Some (Stream 0)) [''u1'']"

section \<open>Properties of the replicated collaborator update\<close>


lemma receive_short:
  "length rspCh < n \<Longrightarrow> receive n rspCh c = None"
  by (induction n rspCh c rule: receive.induct) simp_all

lemma worker_posts_le_1: "length (updateCollaboratorToBlobber b) \<le> 1"
  by (cases "answer b")
     (simp_all add: updateCollaboratorToBlobber_def HttpDo_def split: option.splits)




lemma arrival_length:
  "arrival work bs rspCh \<Longrightarrow> length rspCh = length (concat (map work bs))"
  unfolding arrival_def by (metis size_mset)





lemma worker_silent:
  "newRequest b \<noteq> None \<Longrightarrow> updateCollaboratorToBlobber b = []"
  by (auto simp: updateCollaboratorToBlobber_def)

lemma concat_short:
  "\<exists>b \<in> set bs. newRequest b \<noteq> None \<Longrightarrow>
   length (concat (map updateCollaboratorToBlobber bs)) < length bs"
proof (induction bs)
  case Nil
  then show ?case by simp
next
  case (Cons b bs)
  have le1: "length (updateCollaboratorToBlobber b) \<le> 1" by (rule worker_posts_le_1)
  have rest: "length (concat (map updateCollaboratorToBlobber bs)) \<le> length bs"
  proof (induction bs)
    case Nil
    then show ?case by simp
  next
    case (Cons c cs)
    have "length (updateCollaboratorToBlobber c) \<le> 1" by (rule worker_posts_le_1)
    with Cons show ?case by simp
  qed
  show ?case
  proof (cases "newRequest b \<noteq> None")
    case True
    then have "updateCollaboratorToBlobber b = []" by (rule worker_silent)
    with rest show ?thesis by simp
  next
    case False
    then have "\<exists>b \<in> set bs. newRequest b \<noteq> None" using Cons.prems by auto
    from Cons.IH [OF this] le1 show ?thesis by simp
  qed
qed

lemma build_failure_never_returns:
  assumes "\<exists>b \<in> set (Blobbers req). newRequest b \<noteq> None"
    and "arrival updateCollaboratorToBlobber (Blobbers req) rspCh"
  shows "UpdateCollaboratorToBlobbers req rspCh = None"
proof -
  have "length rspCh < length (Blobbers req)"
    using arrival_length [OF assms(2)] concat_short [OF assms(1)] by simp
  then show ?thesis
    by (simp add: UpdateCollaboratorToBlobbers_def receive_short)
qed

text \<open>
  C4. A replica whose request cannot be constructed sends nothing on \<open>rspCh\<close>
  (the early return of lines 54-57 and 110-113), so the receive loop waits for a value
  that never comes. With three replicas and threshold 2, two of them answering 200
  and one failing construction, the two acceptances arrive and meet the threshold,
  yet neither operation returns a verdict.
\<close>

theorem C4_build_failure_blocks:
  "updateCollaboratorToBlobber unbuildable = []
   \<and> removeCollaboratorFromBlobber unbuildable = []
   \<and> arrival updateCollaboratorToBlobber [replica (Inr 200), unbuildable, replica (Inr 200)] [True, True]
   \<and> arrival removeCollaboratorFromBlobber [replica (Inr 200), unbuildable, replica (Inr 200)] [True, True]
   \<and> UpdateCollaboratorToBlobbers
       \<lparr>Blobbers = [replica (Inr 200), unbuildable, replica (Inr 200)],
        consensus = \<lparr>achievedCount = 0, requiredThreshold = 2\<rparr>\<rparr> [True, True] = None
   \<and> RemoveCollaboratorFromBlobbers
       \<lparr>Blobbers = [replica (Inr 200), unbuildable, replica (Inr 200)],
        consensus = \<lparr>achievedCount = 0, requiredThreshold = 2\<rparr>\<rparr> [True, True] = None"
  by (simp add: updateCollaboratorToBlobber_def removeCollaboratorFromBlobber_def arrival_def
      UpdateCollaboratorToBlobbers_def RemoveCollaboratorFromBlobbers_def unbuildable_def
      replica_def HttpDo_def StatusOK_def)
section \<open>Properties of the retrying executor\<close>

lemma calls_append: "calls (xs @ ys) = calls xs @ calls ys"
  by (induction xs rule: calls.induct) simp_all

lemma sleeps_append: "sleeps (xs @ ys) = sleeps xs @ sleeps ys"
  by (induction xs rule: sleeps.induct) simp_all

lemma sends_append: "sends (xs @ ys) = sends xs @ sends ys"
  by (induction xs rule: sends.induct) simp_all

lemma replayable_replay: "replayable rq \<Longrightarrow> replayable (replay rq)"
  by (auto simp: replayable_def replay_def has_replay_body_def)

lemma replay_idem: "replayable rq \<Longrightarrow> replay (replay rq) = replay rq"
  by (auto simp: replayable_def replay_def has_replay_body_def)

lemma iterate_cases:
  assumes "replayable rq"
  shows "iterate c rt i rq tr =
     (if is_success (fst (c rq i)) \<or> i = rt
      then Ok (Break \<lparr>the_request = rq, the_resp = fst (c rq i), the_err = snd (c rq i),
             trace = tr @ [ClientDo i rq] @
               (if \<not> is_success (fst (c rq i)) \<and> has_body (fst (c rq i)) \<and> i < rt then [BodyClose] else [])\<rparr>)
      else Ok (Continue \<lparr>the_request = replay rq, the_resp = fst (c rq i), the_err = snd (c rq i),
             trace = tr @ [ClientDo i rq] @
               (if has_body (fst (c rq i)) \<and> i < rt then [BodyClose] else []) @
               (if too_many (fst (c rq i)) then [Sleep i 1] else [])\<rparr>))"
  using assms
  by (cases "c rq i") (auto simp: iterate_def replayable_def replay_def Let_def)


lemma request_at_next:
  "replayable rq \<Longrightarrow> i < j \<Longrightarrow> request_at (i + 1) (replay rq) j = request_at i rq j"
  by (simp add: request_at_def replay_idem)

lemma calls_step [simp]:
  "calls (tr @ ClientDo i rq # es) = calls tr @ i # calls es"
  by (simp add: calls_append)

lemma attempts_run:
  assumes "replayable rq" and "i \<le> s" and "s \<le> rt"
    and "\<forall>j. i \<le> j \<and> j < s \<longrightarrow> \<not> is_success (fst (c (request_at i rq j) j))"
    and "is_success (fst (c (request_at i rq s) s)) \<or> s = rt"
  shows "\<exists>a. attempts c rt i rq tr = Some (Ok a)
           \<and> the_request a = request_at i rq s
           \<and> the_resp a = fst (c (request_at i rq s) s)
           \<and> the_err a = snd (c (request_at i rq s) s)
           \<and> calls (trace a) = calls tr @ [i..s]
           \<and> sleeps (trace a) = sleeps tr @
                map (\<lambda>j. (j, 1)) (filter (\<lambda>j. too_many (fst (c (request_at i rq j) j))) [i..s - 1])
           \<and> sends (trace a) = sends tr"
  using assms
proof (induction "nat (s - i)" arbitrary: i rq tr)
  case 0
  then have eq: "s = i" by simp
  have stop: "is_success (fst (c rq i)) \<or> i = rt"
    using "0.prems"(5) by (simp add: eq request_at_def)
  show ?case
    using stop "0.prems"(1)
    by (subst attempts.simps)
       (auto simp: iterate_cases eq request_at_def calls_append sleeps_append sends_append)
next
  case (Suc n)
  then have lt: "i < s" by simp
  have nosucc: "\<not> is_success (fst (c rq i))"
    using Suc.prems(4) lt by (auto simp: request_at_def)
  have ne: "i \<noteq> rt" using lt Suc.prems(3) by simp
  define tr' where "tr' = tr @ [ClientDo i rq] @
               (if has_body (fst (c rq i)) \<and> i < rt then [BodyClose] else []) @
               (if too_many (fst (c rq i)) then [Sleep i 1] else [])"
  have step: "attempts c rt i rq tr = attempts c rt (i + 1) (replay rq) tr'"
    using nosucc ne Suc.prems(1)
    by (subst attempts.simps) (simp add: iterate_cases tr'_def)
  have n: "n = nat (s - (i + 1))" using Suc.hyps(2) by simp
  have h4: "\<forall>j. i + 1 \<le> j \<and> j < s \<longrightarrow> \<not> is_success (fst (c (request_at (i + 1) (replay rq) j) j))"
    using Suc.prems(4) Suc.prems(1) by (simp add: request_at_next)
  have h5: "is_success (fst (c (request_at (i + 1) (replay rq) s) s)) \<or> s = rt"
    using Suc.prems(5) Suc.prems(1) lt by (simp add: request_at_next)
  from Suc.hyps(1) [OF n replayable_replay [OF Suc.prems(1)] _ Suc.prems(3) h4 h5, of tr'] lt
  obtain a where a: "attempts c rt (i + 1) (replay rq) tr' = Some (Ok a)"
    "the_request a = request_at (i + 1) (replay rq) s"
    "the_resp a = fst (c (request_at (i + 1) (replay rq) s) s)"
    "the_err a = snd (c (request_at (i + 1) (replay rq) s) s)"
    "calls (trace a) = calls tr' @ [i + 1..s]"
    "sleeps (trace a) = sleeps tr' @
        map (\<lambda>j. (j, 1)) (filter (\<lambda>j. too_many (fst (c (request_at (i + 1) (replay rq) j) j))) [i + 1..s - 1])"
    "sends (trace a) = sends tr'"
    by auto
  have rq_s: "request_at (i + 1) (replay rq) s = request_at i rq s"
    using Suc.prems(1) lt by (simp add: request_at_next)
  have c_tr': "calls tr' = calls tr @ [i]"
    by (simp add: tr'_def calls_append)
  have s_tr': "sleeps tr' = sleeps tr @ (if too_many (fst (c rq i)) then [(i, 1)] else [])"
    by (simp add: tr'_def sleeps_append)
  have snd_tr': "sends tr' = sends tr"
    by (simp add: tr'_def sends_append)
  have up: "[i..s] = i # [i + 1..s]" using lt by (simp add: upto_rec1)
  have up1: "[i..s - 1] = i # [i + 1..s - 1]" using lt by (simp add: upto_rec1)
  have filt: "filter (\<lambda>j. too_many (fst (c (request_at (i + 1) (replay rq) j) j))) [i + 1..s - 1]
            = filter (\<lambda>j. too_many (fst (c (request_at i rq j) j))) [i + 1..s - 1]"
    using Suc.prems(1) by (intro filter_cong refl) (simp add: request_at_next)
  have "sleeps (trace a) = sleeps tr @
                map (\<lambda>j. (j, 1)) (filter (\<lambda>j. too_many (fst (c (request_at i rq j) j))) [i..s - 1])"
  proof -
    have here: "request_at i rq i = rq" by (simp add: request_at_def)
    show ?thesis
      unfolding a(6) filt s_tr' up1 by (simp add: here)
  qed
  moreover have "calls (trace a) = calls tr @ [i..s]"
    by (simp add: a(5) c_tr' up)
  ultimately show ?case
    using a(1-4) a(7) rq_s snd_tr' step by simp
qed

lemma break_point:
  fixes i rt :: int
  assumes "i \<le> rt"
  shows "\<exists>s. i \<le> s \<and> s \<le> rt \<and> (\<forall>j. i \<le> j \<and> j < s \<longrightarrow> \<not> P j) \<and> (P s \<or> s = rt)"
  using assms
proof (induction "nat (rt - i)" arbitrary: i)
  case 0
  then have "i = rt" by simp
  then have "i \<le> rt \<and> rt \<le> rt \<and> (\<forall>j. i \<le> j \<and> j < rt \<longrightarrow> \<not> P j) \<and> (P rt \<or> rt = rt)"
    by auto
  then show ?case by (rule exI)
next
  case (Suc n)
  show ?case
  proof (cases "P i")
    case True
    have "i \<le> i \<and> i \<le> rt \<and> (\<forall>j. i \<le> j \<and> j < i \<longrightarrow> \<not> P j) \<and> (P i \<or> i = rt)"
      using True Suc.prems by auto
    then show ?thesis by (rule exI)
  next
    case False
    have n: "n = nat (rt - (i + 1))" using Suc.hyps(2) by simp
    have le: "i + 1 \<le> rt" using Suc.hyps(2) by simp
    from Suc.hyps(1) [OF n le]
    obtain s where s: "i + 1 \<le> s" "s \<le> rt" "\<forall>j. i + 1 \<le> j \<and> j < s \<longrightarrow> \<not> P j" "P s \<or> s = rt"
      by blast
    have "\<forall>j. i \<le> j \<and> j < s \<longrightarrow> \<not> P j"
    proof (intro allI impI)
      fix j assume j: "i \<le> j \<and> j < s"
      show "\<not> P j"
      proof (cases "j = i")
        case True
        then show ?thesis using False by simp
      next
        case False
        then have "i + 1 \<le> j \<and> j < s" using j by simp
        then show ?thesis using s(3) by blast
      qed
    qed
    moreover have "i \<le> s" using s(1) by simp
    ultimately have "i \<le> s \<and> s \<le> rt \<and> (\<forall>j. i \<le> j \<and> j < s \<longrightarrow> \<not> P j) \<and> (P s \<or> s = rt)"
      using s(2) s(4) by simp
    then show ?thesis by (rule exI)
  qed
qed

lemma finish_ok:
  assumes "the_resp a = None \<or> has_body (the_resp a)"
  shows "\<exists>es res. finish a = Ok (trace a @ es) \<and> calls es = [] \<and> sleeps es = [] \<and> sends es = [res]
           \<and> Request res = Some (the_request a) \<and> Response res = the_resp a
           \<and> Err res = (case read_error (the_resp a) of Some e \<Rightarrow> Some e | None \<Rightarrow> the_err a)"
proof (cases "the_resp a")
  case None
  then show ?thesis by (simp add: finish_def read_error_def)
next
  case (Some rp)
  with assms obtain b where b: "RespBody rp = Some b" by (auto simp: has_body_def)
  show ?thesis
    using Some b by (cases b) (simp_all add: finish_def read_error_def)
qed

lemma httpDo_run:
  assumes "0 < retry r" and "replayable req" and "bodied (client r)"
    and "1 \<le> s" and "s \<le> retry r"
    and "\<forall>j. 1 \<le> j \<and> j < s \<longrightarrow> \<not> is_success (fst (client r (request_at 1 req j) j))"
    and "is_success (fst (client r (request_at 1 req s) s)) \<or> s = retry r"
  shows "\<exists>tr res. httpDo r req = Some (Ok tr)
           \<and> calls tr = [1..s]
           \<and> sleeps tr = map (\<lambda>j. (j, 1))
                (filter (\<lambda>j. too_many (fst (client r (request_at 1 req j) j))) [1..s - 1])
           \<and> sends tr = [res]
           \<and> Request res = Some (request_at 1 req s)
           \<and> Response res = fst (client r (request_at 1 req s) s)
           \<and> Err res = (case read_error (fst (client r (request_at 1 req s) s)) of
                          Some e \<Rightarrow> Some e
                        | None \<Rightarrow> snd (client r (request_at 1 req s) s))"
proof -
  from attempts_run [where c = "client r" and rt = "retry r" and i = 1 and s = s and rq = req
      and tr = "[]", OF assms(2) assms(4) assms(5) assms(6) assms(7)]
  obtain a where a: "attempts (client r) (retry r) 1 req [] = Some (Ok a)"
    "the_request a = request_at 1 req s"
    "the_resp a = fst (client r (request_at 1 req s) s)"
    "the_err a = snd (client r (request_at 1 req s) s)"
    "calls (trace a) = [1..s]"
    "sleeps (trace a) = map (\<lambda>j. (j, 1))
        (filter (\<lambda>j. too_many (fst (client r (request_at 1 req j) j))) [1..s - 1])"
    "sends (trace a) = []"
    by auto
  have "the_resp a = None \<or> has_body (the_resp a)"
    using assms(3) a(3) by (simp add: bodied_def)
  from finish_ok [OF this]
  obtain es res where f: "finish a = Ok (trace a @ es)" "calls es = []" "sleeps es = []"
    "sends es = [res]" "Request res = Some (the_request a)" "Response res = the_resp a"
    "Err res = (case read_error (the_resp a) of Some e \<Rightarrow> Some e | None \<Rightarrow> the_err a)"
    by blast
  have run: "httpDo r req = Some (Ok (trace a @ es))"
    using assms(1) a(1) f(1) by (simp add: httpDo_def)
  have c: "calls (trace a @ es) = [1..s]"
    by (simp add: calls_append a(5) f(2))
  have sl: "sleeps (trace a @ es) = map (\<lambda>j. (j, 1))
        (filter (\<lambda>j. too_many (fst (client r (request_at 1 req j) j))) [1..s - 1])"
    by (simp add: sleeps_append a(6) f(3))
  have sn: "sends (trace a @ es) = [res]"
    by (simp add: sends_append a(7) f(4))
  have rq: "Request res = Some (request_at 1 req s)"
    using f(5) a(2) by simp
  have rp: "Response res = fst (client r (request_at 1 req s) s)"
    using f(6) a(3) by simp
  have er: "Err res = (case read_error (fst (client r (request_at 1 req s) s)) of
                          Some e \<Rightarrow> Some e
                        | None \<Rightarrow> snd (client r (request_at 1 req s) s))"
    unfolding f(7) a(3) a(4) ..
  show ?thesis
    by (rule exI [of _ "trace a @ es"], rule exI [of _ res], intro conjI)
       (rule run c sl sn rq rp er)+
qed

lemma httpDo_once:
  assumes "retry r \<le> 0" and "bodied (client r)"
  shows "\<exists>tr res. httpDo r req = Some (Ok tr)
           \<and> calls tr = [1] \<and> sleeps tr = [] \<and> sends tr = [res]
           \<and> Request res = Some req
           \<and> Response res = fst (client r req 1)
           \<and> Err res = (case read_error (fst (client r req 1)) of
                          Some e \<Rightarrow> Some e | None \<Rightarrow> snd (client r req 1))"
proof -
  define a where "a = \<lparr>the_request = req, the_resp = fst (client r req 1),
                       the_err = snd (client r req 1), trace = [ClientDo 1 req]\<rparr>"
  have "the_resp a = None \<or> has_body (the_resp a)"
    using assms(2) by (simp add: bodied_def a_def)
  from finish_ok [OF this]
  obtain es res where f: "finish a = Ok (trace a @ es)" "calls es = []" "sleeps es = []"
    "sends es = [res]" "Request res = Some (the_request a)" "Response res = the_resp a"
    "Err res = (case read_error (the_resp a) of Some e \<Rightarrow> Some e | None \<Rightarrow> the_err a)"
    by blast
  have run: "httpDo r req = Some (finish a)"
    using assms(1) by (cases "client r req 1") (simp add: httpDo_def a_def)
  have sel: "trace a = [ClientDo 1 req]" "the_request a = req"
    "the_resp a = fst (client r req 1)" "the_err a = snd (client r req 1)"
    by (simp_all add: a_def)
  have r1: "httpDo r req = Some (Ok ([ClientDo 1 req] @ es))"
    using run f(1) sel(1) by simp
  have r2: "calls ([ClientDo 1 req] @ es) = [1]"
    using f(2) by simp
  have r3: "sleeps ([ClientDo 1 req] @ es) = []"
    using f(3) by simp
  have r4: "sends ([ClientDo 1 req] @ es) = [res]"
    using f(4) by simp
  have r5: "Request res = Some req"
    using f(5) sel(2) by simp
  have r6: "Response res = fst (client r req 1)"
    using f(6) sel(3) by simp
  have r7: "Err res = (case read_error (fst (client r req 1)) of
                          Some e \<Rightarrow> Some e | None \<Rightarrow> snd (client r req 1))"
    unfolding f(7) sel(3) sel(4) ..
  show ?thesis
    by (rule exI [of _ "[ClientDo 1 req] @ es"], rule exI [of _ res], intro conjI)
       (rule r1 r2 r3 r4 r5 r6 r7)+
qed





lemma bodied_stub_status: "bodied (stub_status code)"
  by (simp add: bodied_def stub_status_def reply_def has_body_def)


lemma replayable_get_req: "replayable (get_req url)"
  by (simp add: replayable_def has_replay_body_def get_req_def)


section \<open>Properties of the reducers\<close>

lemma First_loop_accept:
  assumes "\<forall>res \<in> set pre. judge r res \<noteq> None" and "judge r ok = None"
    and "n + int (length pre) < qty r"
  shows "First_loop r (map Receive pre @ Receive ok # rest) errs n = Some (None, rest)"
  using assms
proof (induction pre arbitrary: errs n)
  case Nil
  then show ?case by (simp add: judge_def)
next
  case (Cons x pre)
  from Cons.prems(1) obtain e where e: "judge r x = Some e" by auto
  have more: "\<not> qty r \<le> n + 1" using Cons.prems(3) by simp
  have "First_loop r (map Receive (x # pre) @ Receive ok # rest) errs n =
        First_loop r (map Receive pre @ Receive ok # rest) (errs @ [e]) (n + 1)"
    using e more by (simp add: judge_def)
  also have "\<dots> = Some (None, rest)"
    using Cons.prems by (intro Cons.IH) simp_all
  finally show ?case .
qed

lemma First_loop_exhaust:
  assumes "\<forall>res \<in> set rs. judge r res \<noteq> None" and "rs \<noteq> []"
    and "n + int (length rs) = qty r"
  shows "First_loop r (map Receive rs @ rest) errs n =
           Some (Some (errs @ List.map_filter (judge r) rs), rest)"
  using assms
proof (induction rs arbitrary: errs n)
  case Nil
  then show ?case by simp
next
  case (Cons x rs)
  from Cons.prems(1) obtain e where e: "judge r x = Some e" by auto
  show ?case
  proof (cases "rs = []")
    case True
    then have "qty r \<le> n + 1" using Cons.prems(3) by simp
    then show ?thesis using e True by (simp add: judge_def List.map_filter_simps)
  next
    case False
    then have more: "\<not> qty r \<le> n + 1" using Cons.prems(3) by (cases rs) simp_all
    have "First_loop r (map Receive (x # rs) @ rest) errs n =
          First_loop r (map Receive rs @ rest) (errs @ [e]) (n + 1)"
      using e more by (simp add: judge_def)
    also have "\<dots> = Some (Some ((errs @ [e]) @ List.map_filter (judge r) rs), rest)"
      using Cons.prems False by (intro Cons.IH) simp_all
    finally show ?thesis using e by (simp add: List.map_filter_simps)
  qed
qed

lemma Wait_loop_drain:
  assumes "rs \<noteq> []" and "n + int (length rs) = qty r"
  shows "Wait_loop r (map Receive rs @ rest) errs n =
           Some (errs @ List.map_filter (judge r) rs, rest)"
  using assms
proof (induction rs arbitrary: errs n)
  case Nil
  then show ?case by simp
next
  case (Cons x rs)
  define errs' where "errs' = errs @ (case judge r x of Some e \<Rightarrow> [e] | None \<Rightarrow> [])"
  have errs'_alt: "errs' = (case handle r of
                     Some h \<Rightarrow> (case h x of Some e \<Rightarrow> errs @ [e] | None \<Rightarrow> errs)
                   | None \<Rightarrow> (case Err x of Some e \<Rightarrow> errs @ [e] | None \<Rightarrow> errs))"
    by (simp add: errs'_def judge_def split: option.splits)
  have mf: "errs @ List.map_filter (judge r) (x # rs) = errs' @ List.map_filter (judge r) rs"
    by (simp add: errs'_def List.map_filter_simps split: option.splits)
  show ?case
  proof (cases "rs = []")
    case True
    then have "qty r \<le> n + 1" using Cons.prems(2) by simp
    then have "Wait_loop r (map Receive (x # rs) @ rest) errs n = Some (errs', rest)"
      using True by (simp add: errs'_alt Let_def)
    then show ?thesis using mf True by (simp add: List.map_filter_simps)
  next
    case False
    then have more: "\<not> qty r \<le> n + 1" using Cons.prems(2) by (cases rs) simp_all
    have "Wait_loop r (map Receive (x # rs) @ rest) errs n =
          Wait_loop r (map Receive rs @ rest) errs' (n + 1)"
      using more by (simp add: errs'_alt Let_def)
    also have "\<dots> = Some (errs' @ List.map_filter (judge r) rs, rest)"
      using Cons.prems False by (intro Cons.IH) simp_all
    finally show ?thesis using mf by simp
  qed
qed

lemma Wait_drain:
  assumes "int (length rs) = qty r"
  shows "Wait r (map Receive rs @ rest) = Some (List.map_filter (judge r) rs, rest)"
proof (cases "rs = []")
  case True
  then show ?thesis using assms by (simp add: Wait_def List.map_filter_simps)
next
  case False
  then have "qty r \<noteq> 0" using assms by auto
  then show ?thesis
    using Wait_loop_drain [OF False, of 0 r rest "[]"] assms by (simp add: Wait_def)
qed

lemma First_loop_ctx:
  assumes "\<forall>res \<in> set pre. judge r res \<noteq> None" and "n + int (length pre) < qty r"
  shows "First_loop r (map Receive pre @ CtxDone # rest) errs n =
           Some (Some (errs @ List.map_filter (judge r) pre), rest)"
  using assms
proof (induction pre arbitrary: errs n)
  case Nil
  then show ?case by (simp add: List.map_filter_simps)
next
  case (Cons x pre)
  from Cons.prems(1) obtain e where e: "judge r x = Some e" by auto
  have more: "\<not> qty r \<le> n + 1" using Cons.prems(2) by simp
  have "First_loop r (map Receive (x # pre) @ CtxDone # rest) errs n =
        First_loop r (map Receive pre @ CtxDone # rest) (errs @ [e]) (n + 1)"
    using e more by (simp add: judge_def)
  also have "\<dots> = Some (Some ((errs @ [e]) @ List.map_filter (judge r) pre), rest)"
    using Cons.prems by (intro Cons.IH) simp_all
  finally show ?case using e by (simp add: List.map_filter_simps)
qed

section \<open>Properties of the dispatch\<close>

lemma Do_loop_map:
  "Do_loop r parse h method body urls = map (target r parse h method body) urls"
proof (induction urls)
  case Nil
  then show ?case by simp
next
  case (Cons url urls)
  show ?case
  proof (cases "NewRequest parse h method url body")
    case (Inl e)
    then show ?thesis using Cons by (simp add: target_def)
  next
    case (Inr req0)
    show ?thesis
    proof (cases "requestInterceptor r")
      case None
      then show ?thesis using Cons Inr by (simp add: target_def prepare_def)
    next
      case (Some f)
      obtain req3 e where f: "f (prepare r req0) = (req3, e)" by (cases "f (prepare r req0)")
      then have f': "f (Header_Set ''Connection'' ''keep-alive''
                        (fold (\<lambda>(key, v). Header_Set key v) (header r) req0)) = (req3, e)"
        by (simp add: prepare_def)
      show ?thesis using Cons Inr Some f f' by (cases e) (simp_all add: target_def)
    qed
  qed
qed

lemma target_cases:
  "(\<exists>res. target r parse h method body url = Send res) \<or>
   (\<exists>rq. target r parse h method body url = Go rq)"
  by (auto simp: target_def split: sum.splits option.splits prod.splits)

lemma calls_map_target: "calls (map (target r parse h method body) urls) = []"
proof (induction urls)
  case Nil
  then show ?case by simp
next
  case (Cons url urls)
  from target_cases [of r parse h "method" body url] show ?case
    using Cons by auto
qed

lemma Go_in_spawned: "Go rq \<in> set evs \<Longrightarrow> rq \<in> set (spawned evs)"
  by (induction evs rule: spawned.induct) auto


lemma prepare_qty [simp]: "prepare (r\<lparr>qty := n\<rparr>) = prepare r"
  by (simp add: prepare_def fun_eq_iff)

lemma target_qty [simp]: "target (r\<lparr>qty := n\<rparr>) = target r"
  by (simp add: target_def fun_eq_iff split: sum.splits option.splits)

lemma Do_unfold:
  "Do r parse h method body urls =
     (r\<lparr>qty := int (length urls)\<rparr>, map (target r parse h method body) urls)"
  by (simp add: Do_def Do_loop_map Let_def)

lemma httpDo_total:
  assumes "bodied (client r)" and "retry r \<le> 0 \<or> replayable rq"
  shows "\<exists>tr res. httpDo r rq = Some (Ok tr) \<and> sends tr = [res]"
proof (cases "retry r \<le> 0")
  case True
  from httpDo_once [OF True assms(1), of rq] show ?thesis by blast
next
  case False
  then have pos: "0 < retry r" and one: "1 \<le> retry r" by simp_all
  have rep: "replayable rq" using assms(2) False by simp
  from break_point [OF one, of "\<lambda>j. is_success (fst (client r (request_at 1 rq j) j))"]
  obtain s where s: "1 \<le> s" "s \<le> retry r"
    "\<forall>j. 1 \<le> j \<and> j < s \<longrightarrow> \<not> is_success (fst (client r (request_at 1 rq j) j))"
    "is_success (fst (client r (request_at 1 rq s) s)) \<or> s = retry r"
    by blast
  from httpDo_run [OF pos rep assms(1) s] show ?thesis by blast
qed

lemma length_delivered:
  "\<forall>ev \<in> set evs. \<exists>res. delivers r ev = Some [res] \<Longrightarrow> length (delivered r evs) = length evs"
proof (induction evs)
  case Nil
  then show ?case by (simp add: delivered_def)
next
  case (Cons ev evs)
  then obtain res where "delivers r ev = Some [res]" by auto
  moreover have "length (delivered r evs) = length evs" using Cons by simp
  ultimately show ?case by (simp add: delivered_def)
qed

lemma four_targets_events:
  "snd four_targets =
     [Go (get_req ''a''),
      Send \<lparr>Request = None, Response = None, ResponseBody = [], Err = Some ''invalid url''\<rparr>,
      Send \<lparr>Request = Some (get_req ''c''), Response = None, ResponseBody = [], Err = Some ''denied''\<rparr>,
      Go (get_req ''d'')]"
  by (simp add: four_targets_def Do_def Let_def NewRequest_def Header_Set_def parse_but_def
      deny_def guarded_def resty_def get_req_def)









text \<open>
  C8. \<open>First\<close> returns nil as soon as a received result is accepted (by the handler, or
  with no handler by a nil \<open>Err\<close>), after the rejected results before it, and leaves
  the rounds after it unconsumed; when all \<open>qty\<close> results are rejected it returns the
  list of their errors, in order of arrival.
\<close>

theorem C8_first:
  "(int (length pre) < qty r \<and> (\<forall>res \<in> set pre. judge r res \<noteq> None) \<and> judge r ok = None
      \<longrightarrow> First r (map Receive pre @ Receive ok # rest) = Some (None, rest))
   \<and> (int (length rs) = qty r \<and> (\<forall>res \<in> set rs. judge r res \<noteq> None)
      \<longrightarrow> First r (map Receive rs @ rest) = Some (Some (List.map_filter (judge r) rs), rest))"
proof (intro conjI impI)
  assume h: "int (length pre) < qty r \<and> (\<forall>res \<in> set pre. judge r res \<noteq> None) \<and> judge r ok = None"
  then have "qty r \<noteq> 0" by auto
  moreover have "First_loop r (map Receive pre @ Receive ok # rest) [] 0 = Some (None, rest)"
    using h by (intro First_loop_accept) simp_all
  ultimately show "First r (map Receive pre @ Receive ok # rest) = Some (None, rest)"
    by (simp add: First_def)
next
  assume h: "int (length rs) = qty r \<and> (\<forall>res \<in> set rs. judge r res \<noteq> None)"
  show "First r (map Receive rs @ rest) = Some (Some (List.map_filter (judge r) rs), rest)"
  proof (cases "rs = []")
    case True
    then show ?thesis using h by (simp add: First_def List.map_filter_simps)
  next
    case False
    then have "qty r \<noteq> 0" using h by auto
    moreover have "First_loop r (map Receive rs @ rest) [] 0 =
        Some (Some ([] @ List.map_filter (judge r) rs), rest)"
      using h False by (intro First_loop_exhaust) simp_all
    ultimately show ?thesis by (simp add: First_def)
  qed
qed

theorem C8_first_witness:
  "First (batch (Some only_200) 3) [Receive (answered 500), Receive (answered 200), Receive (answered 404)]
     = Some (None, [Receive (answered 404)])
   \<and> First (batch (Some only_200) 3) [Receive (answered 500), Receive (broken ''refused''), Receive (answered 404)]
     = Some (Some [''rejected'', ''no response'', ''rejected''], [])
   \<and> First (batch None 2) [Receive (broken ''refused''), Receive (answered 500), CtxDone]
     = Some (None, [CtxDone])"
proof -
  let ?r = "batch (Some only_200) 3" and ?n = "batch None 2"
  have j: "judge ?r (answered 500) = Some ''rejected''" "judge ?r (answered 404) = Some ''rejected''"
    "judge ?r (answered 200) = None" "judge ?r (broken ''refused'') = Some ''no response''"
    by (simp_all add: judge_def batch_def only_200_def answered_def broken_def reply_def)
  have jn: "judge ?n (broken ''refused'') = Some ''refused''" "judge ?n (answered 500) = None"
    by (simp_all add: judge_def batch_def answered_def broken_def)
  have q: "qty ?r = 3" "qty ?n = 2" by (simp_all add: batch_def)
  have a: "First ?r (map Receive [answered 500] @ Receive (answered 200) # [Receive (answered 404)])
             = Some (None, [Receive (answered 404)])"
    using C8_first [where pre = "[answered 500]" and r = ?r and ok = "answered 200"
        and rest = "[Receive (answered 404)]"] j q
    by simp
  have b: "First ?r (map Receive [answered 500, broken ''refused'', answered 404] @ [])
             = Some (Some (List.map_filter (judge ?r) [answered 500, broken ''refused'', answered 404]), [])"
    using C8_first [where r = ?r and rs = "[answered 500, broken ''refused'', answered 404]"
        and rest = "[]"] j q
    by simp
  have c: "First ?n (map Receive [broken ''refused''] @ Receive (answered 500) # [CtxDone])
             = Some (None, [CtxDone])"
    using C8_first [where pre = "[broken ''refused'']" and r = ?n and ok = "answered 500"
        and rest = "[CtxDone]"] jn q
    by simp
  from a b c show ?thesis by (simp add: List.map_filter_simps j)
qed

text \<open>
  C10. With no handler both reducers judge a result by its \<open>Err\<close> field alone,
  whatever its response and status code. \<open>Wait\<close> over the \<open>qty\<close> results returns
  exactly their non-nil \<open>Err\<close> fields, so a result with a nil \<open>Err\<close> adds nothing.
  \<open>First\<close> skips the results with a non-nil \<open>Err\<close>, collecting these errors, and
  returns nil at the first result with a nil \<open>Err\<close>; when all \<open>qty\<close> results have a
  non-nil \<open>Err\<close>, or the context is done first, it returns the errors collected.
\<close>

theorem C10_no_handler:
  assumes "handle r = None"
  shows "(int (length rs) = qty r
           \<longrightarrow> Wait r (map Receive rs @ rest) = Some (List.map_filter Err rs, rest))
       \<and> (qty r \<noteq> 0 \<and> Err res = None
           \<longrightarrow> First r (Receive res # rest) = Some (None, rest))
       \<and> (int (length pre) < qty r \<and> (\<forall>x \<in> set pre. Err x \<noteq> None) \<and> Err ok = None
           \<longrightarrow> First r (map Receive pre @ Receive ok # rest) = Some (None, rest))
       \<and> (int (length rs) = qty r \<and> (\<forall>x \<in> set rs. Err x \<noteq> None)
           \<longrightarrow> First r (map Receive rs @ rest) = Some (Some (List.map_filter Err rs), rest))
       \<and> (int (length pre) < qty r \<and> (\<forall>x \<in> set pre. Err x \<noteq> None)
           \<longrightarrow> First r (map Receive pre @ CtxDone # rest) = Some (Some (List.map_filter Err pre), rest))"
proof (intro conjI impI)
  have j: "judge r = Err" using assms by (simp add: judge_def fun_eq_iff)
  {
    assume "int (length rs) = qty r"
    from Wait_drain [OF this, of rest]
    show "Wait r (map Receive rs @ rest) = Some (List.map_filter Err rs, rest)"
      by (simp add: j)
  }
  {
    assume "qty r \<noteq> 0 \<and> Err res = None"
    then show "First r (Receive res # rest) = Some (None, rest)"
      using assms by (simp add: First_def)
  }
  {
    assume h: "int (length pre) < qty r \<and> (\<forall>x \<in> set pre. Err x \<noteq> None) \<and> Err ok = None"
    then have "qty r \<noteq> 0" by auto
    moreover have "First_loop r (map Receive pre @ Receive ok # rest) [] 0 = Some (None, rest)"
      using h by (intro First_loop_accept) (simp_all add: j)
    ultimately show "First r (map Receive pre @ Receive ok # rest) = Some (None, rest)"
      by (simp add: First_def)
  }
  {
    assume h: "int (length rs) = qty r \<and> (\<forall>x \<in> set rs. Err x \<noteq> None)"
    show "First r (map Receive rs @ rest) = Some (Some (List.map_filter Err rs), rest)"
    proof (cases "rs = []")
      case True
      then show ?thesis using h by (simp add: First_def List.map_filter_simps)
    next
      case False
      then have "qty r \<noteq> 0" using h by auto
      moreover have "First_loop r (map Receive rs @ rest) [] 0 =
          Some (Some ([] @ List.map_filter (judge r) rs), rest)"
        using h False by (intro First_loop_exhaust) (simp_all add: j)
      ultimately show ?thesis by (simp add: First_def j)
    qed
  }
  {
    assume h: "int (length pre) < qty r \<and> (\<forall>x \<in> set pre. Err x \<noteq> None)"
    then have "qty r \<noteq> 0" by auto
    moreover have "First_loop r (map Receive pre @ CtxDone # rest) [] 0 =
        Some (Some ([] @ List.map_filter (judge r) pre), rest)"
      using h by (intro First_loop_ctx) (simp_all add: j)
    ultimately show "First r (map Receive pre @ CtxDone # rest) = Some (Some (List.map_filter Err pre), rest)"
      by (simp add: First_def j)
  }
qed

theorem C10_no_handler_witness:
  "Wait (batch None 2) [Receive (answered 500), Receive (broken ''refused'')] = Some ([''refused''], [])
   \<and> First (batch None 2) [Receive (answered 500), Receive (broken ''refused'')]
       = Some (None, [Receive (broken ''refused'')])
   \<and> First (batch None 2) [Receive (broken ''refused''), Receive (answered 500)] = Some (None, [])
   \<and> First (batch None 2) [Receive (broken ''refused''), Receive (broken ''reset'')]
       = Some (Some [''refused'', ''reset''], [])
   \<and> First (batch None 2) [Receive (broken ''refused''), CtxDone] = Some (Some [''refused''], [])"
proof -
  let ?n = "batch None 2"
  have h: "handle ?n = None" by (simp add: batch_def)
  have q: "qty ?n = 2" by (simp add: batch_def)
  have e: "Err (answered 500) = None" "Err (broken x) = Some x" for x
    by (simp_all add: answered_def broken_def)
  have a: "Wait ?n (map Receive [answered 500, broken ''refused''] @ []) =
          Some (List.map_filter Err [answered 500, broken ''refused''], [])"
    using C10_no_handler [OF h, where rs = "[answered 500, broken ''refused'']" and rest = "[]"] q
    by simp
  have b: "First ?n (Receive (answered 500) # [Receive (broken ''refused'')])
       = Some (None, [Receive (broken ''refused'')])"
    using C10_no_handler [OF h, where res = "answered 500" and rest = "[Receive (broken ''refused'')]"]
      q e(1) by simp
  have c: "First ?n (map Receive [broken ''refused''] @ Receive (answered 500) # []) = Some (None, [])"
    using C10_no_handler [OF h, where pre = "[broken ''refused'']" and ok = "answered 500"
        and rest = "[]"] q e by simp
  have d: "First ?n (map Receive [broken ''refused'', broken ''reset''] @ [])
       = Some (Some (List.map_filter Err [broken ''refused'', broken ''reset'']), [])"
    using C10_no_handler [OF h, where rs = "[broken ''refused'', broken ''reset'']" and rest = "[]"]
      q e by simp
  have f: "First ?n (map Receive [broken ''refused''] @ CtxDone # [])
       = Some (Some (List.map_filter Err [broken ''refused'']), [])"
    using C10_no_handler [OF h, where pre = "[broken ''refused'']" and rest = "[]"] q e by simp
  from a b c d f show ?thesis by (simp add: List.map_filter_simps e)
qed
text \<open>
  C9. \<open>Do\<close> causes exactly one event per url, in order, and none of them is a client
  call. For a url whose request cannot be constructed the event is the send of a
  failed result carrying that error; for one whose interceptor returns an error it is
  the send of a failed result carrying the request and that error; in neither case a
  goroutine is started. Every other url gets its goroutine, whatever happened to the
  urls before it.
\<close>

theorem C9_bad_target_isolated:
  assumes "Do r parse h method body urls = (r', evs)"
  shows "length evs = length urls \<and> calls evs = []
    \<and> (\<forall>j < length urls.
         (\<forall>e. NewRequest parse h method (urls ! j) body = Inl e \<longrightarrow>
              evs ! j = Send \<lparr>Request = None, Response = None, ResponseBody = [], Err = Some e\<rparr>)
       \<and> (\<forall>req0 f req3 e. NewRequest parse h method (urls ! j) body = Inr req0
              \<and> requestInterceptor r = Some f \<and> f (prepare r req0) = (req3, Some e) \<longrightarrow>
              evs ! j = Send \<lparr>Request = Some req3, Response = None, ResponseBody = [], Err = Some e\<rparr>)
       \<and> (\<forall>req0. NewRequest parse h method (urls ! j) body = Inr req0
              \<and> requestInterceptor r = None \<longrightarrow> evs ! j = Go (prepare r req0))
       \<and> (\<forall>req0 f req3. NewRequest parse h method (urls ! j) body = Inr req0
              \<and> requestInterceptor r = Some f \<and> f (prepare r req0) = (req3, None) \<longrightarrow>
              evs ! j = Go req3))"
proof -
  have evs: "evs = map (target r parse h method body) urls"
    using assms by (auto simp: Do_unfold)
  have len: "length evs = length urls" by (simp add: evs)
  have noio: "calls evs = []" by (simp add: evs calls_map_target)
  have each: "\<forall>j < length urls.
         (\<forall>e. NewRequest parse h method (urls ! j) body = Inl e \<longrightarrow>
              evs ! j = Send \<lparr>Request = None, Response = None, ResponseBody = [], Err = Some e\<rparr>)
       \<and> (\<forall>req0 f req3 e. NewRequest parse h method (urls ! j) body = Inr req0
              \<and> requestInterceptor r = Some f \<and> f (prepare r req0) = (req3, Some e) \<longrightarrow>
              evs ! j = Send \<lparr>Request = Some req3, Response = None, ResponseBody = [], Err = Some e\<rparr>)
       \<and> (\<forall>req0. NewRequest parse h method (urls ! j) body = Inr req0
              \<and> requestInterceptor r = None \<longrightarrow> evs ! j = Go (prepare r req0))
       \<and> (\<forall>req0 f req3. NewRequest parse h method (urls ! j) body = Inr req0
              \<and> requestInterceptor r = Some f \<and> f (prepare r req0) = (req3, None) \<longrightarrow>
              evs ! j = Go req3)"
  proof (intro allI impI)
    fix j assume j: "j < length urls"
    then have nth: "evs ! j = target r parse h method body (urls ! j)" by (simp add: evs)
    show "(\<forall>e. NewRequest parse h method (urls ! j) body = Inl e \<longrightarrow>
              evs ! j = Send \<lparr>Request = None, Response = None, ResponseBody = [], Err = Some e\<rparr>)
       \<and> (\<forall>req0 f req3 e. NewRequest parse h method (urls ! j) body = Inr req0
              \<and> requestInterceptor r = Some f \<and> f (prepare r req0) = (req3, Some e) \<longrightarrow>
              evs ! j = Send \<lparr>Request = Some req3, Response = None, ResponseBody = [], Err = Some e\<rparr>)
       \<and> (\<forall>req0. NewRequest parse h method (urls ! j) body = Inr req0
              \<and> requestInterceptor r = None \<longrightarrow> evs ! j = Go (prepare r req0))
       \<and> (\<forall>req0 f req3. NewRequest parse h method (urls ! j) body = Inr req0
              \<and> requestInterceptor r = Some f \<and> f (prepare r req0) = (req3, None) \<longrightarrow>
              evs ! j = Go req3)"
      unfolding nth by (simp add: target_def)
  qed
  from len noio each show ?thesis by (intro conjI)
qed

theorem C9_bad_target_isolated_witness:
  "length (snd four_targets) = 4
   \<and> snd four_targets ! 1 =
       Send \<lparr>Request = None, Response = None, ResponseBody = [], Err = Some ''invalid url''\<rparr>
   \<and> snd four_targets ! 2 =
       Send \<lparr>Request = Some (get_req ''c''), Response = None, ResponseBody = [], Err = Some ''denied''\<rparr>
   \<and> snd four_targets ! 3 = Go (get_req ''d'')"
proof -
  have d: "Do guarded (parse_but ''b'') (one_buffer []) ''GET'' None [''a'', ''b'', ''c'', ''d'']
             = (fst four_targets, snd four_targets)"
    by (simp add: four_targets_def)
  note T = C9_bad_target_isolated [OF d]
  have len: "length (snd four_targets) = 4" using T by simp
  have n1: "NewRequest (parse_but ''b'') (one_buffer []) ''GET'' ([''a'', ''b'', ''c'', ''d''] ! 1) None
              = Inl ''invalid url''"
    by (simp add: NewRequest_def parse_but_def)
  have e1: "snd four_targets ! 1 =
       Send \<lparr>Request = None, Response = None, ResponseBody = [], Err = Some ''invalid url''\<rparr>"
    using T n1 by simp
  define rq where "rq url = \<lparr>Method = ''GET'', URL = url, Header = [], Body = None, GetBody = None\<rparr>" for url
  have p: "prepare guarded (rq url) = get_req url" for url
    by (simp add: prepare_def guarded_def resty_def rq_def Header_Set_def get_req_def)
  have n2: "NewRequest (parse_but ''b'') (one_buffer []) ''GET'' ([''a'', ''b'', ''c'', ''d''] ! 2) None
              = Inr (rq ''c'')"
    by (simp add: NewRequest_def parse_but_def rq_def)
  have n3: "NewRequest (parse_but ''b'') (one_buffer []) ''GET'' ([''a'', ''b'', ''c'', ''d''] ! 3) None
              = Inr (rq ''d'')"
    by (simp add: NewRequest_def parse_but_def rq_def)
  have i: "requestInterceptor guarded = Some (deny ''c'')"
    by (simp add: guarded_def resty_def)
  have f2: "deny ''c'' (prepare guarded (rq ''c'')) = (get_req ''c'', Some ''denied'')"
    by (simp add: p) (simp add: deny_def get_req_def)
  have f3: "deny ''c'' (prepare guarded (rq ''d'')) = (get_req ''d'', None)"
    by (simp add: p) (simp add: deny_def get_req_def)
  have e2: "snd four_targets ! 2 =
       Send \<lparr>Request = Some (get_req ''c''), Response = None, ResponseBody = [], Err = Some ''denied''\<rparr>"
    using T n2 i f2 by simp
  have e3: "snd four_targets ! 3 = Go (get_req ''d'')"
    using T n3 i f3 by simp
  from len e1 e2 e3 show ?thesis by simp
qed

text \<open>
  C1, as stated, fails. \<open>DoPost\<close> takes any \<open>io.Reader\<close>; for one that net/http cannot
  replay \<open>http.NewRequest\<close> leaves \<open>GetBody\<close> nil, and with a retry limit of 3 the
  goroutine calls it at line 154 and panics before it reaches the send on \<open>r.done\<close>:
  the one target of the batch delivers no result.
\<close>

theorem C1_stream_body_panics:
  "snd stream_batch = [Go post_stream]
   \<and> httpDo (fst stream_batch) post_stream = Some Panic
   \<and> delivers (fst stream_batch) (Go post_stream) = None
   \<and> delivered (fst stream_batch) (snd stream_batch) = []"
proof -
  have evs: "snd stream_batch = [Go post_stream]"
    by (simp add: stream_batch_def DoPost_def Do_def Let_def NewRequest_def Header_Set_def
        parse_but_def resty_def post_stream_def MethodPost_def)
  have rt: "retry (fst stream_batch) = 3"
    by (simp add: stream_batch_def DoPost_def Do_def Let_def resty_def)
  have it: "iterate c 3 1 post_stream [] = Panic" for c
    by (simp add: iterate_def has_replay_body_def post_stream_def MethodPost_def)
  have run: "httpDo (fst stream_batch) post_stream = Some Panic"
    by (simp add: httpDo_def rt attempts.simps it)
  have dl: "delivers (fst stream_batch) (Go post_stream) = None"
    by (simp add: delivers_def run)
  have all: "delivered (fst stream_batch) (snd stream_batch) = []"
    by (simp add: delivered_def evs dl)
  from evs run dl all show ?thesis by (intro conjI)
qed

text \<open>
  C1, amended. For a batch of \<open>N\<close> urls, with a client whose responses have a body
  and, when the retry limit is positive, request bodies that can be replayed, \<open>qty\<close> is
  \<open>N\<close> and every target puts exactly one result on \<open>r.done\<close>: the one \<open>Do\<close> sends for
  it, or the one its goroutine sends when it ends, which it always does. So \<open>N\<close>
  results are delivered, and \<open>Wait\<close>, whatever the order of their arrival, consumes
  all of them and returns.
\<close>

theorem C1_one_result_per_target:
  assumes "Do r parse h method body urls = (r', evs)"
    and "bodied (client r)"
    and "retry r \<le> 0 \<or> (\<forall>rq \<in> set (spawned evs). replayable rq)"
  shows "qty r' = int (length urls) \<and> length evs = length urls
       \<and> (\<forall>ev \<in> set evs. \<exists>res. delivers r' ev = Some [res])
       \<and> length (delivered r' evs) = length urls
       \<and> (\<forall>ch. mset ch = mset (delivered r' evs) \<longrightarrow>
             (\<exists>errs. Wait r' (map Receive ch) = Some (errs, [])))"
proof -
  have r': "r' = r\<lparr>qty := int (length urls)\<rparr>"
    and evs: "evs = map (target r parse h method body) urls"
    using assms(1) by (auto simp: Do_unfold)
  have q: "qty r' = int (length urls)" by (simp add: r')
  have len: "length evs = length urls" by (simp add: evs)
  have bod: "bodied (client r')" using assms(2) by (simp add: r')
  have each: "\<forall>ev \<in> set evs. \<exists>res. delivers r' ev = Some [res]"
  proof
    fix ev assume ev: "ev \<in> set evs"
    then obtain url where "ev = target r parse h method body url" by (auto simp: evs)
    with target_cases [of r parse h "method" body url]
    consider res where "ev = Send res" | rq where "ev = Go rq" by auto
    then show "\<exists>res. delivers r' ev = Some [res]"
    proof cases
      case 1
      then show ?thesis by (simp add: delivers_def)
    next
      case 2
      then have "rq \<in> set (spawned evs)" using ev by (simp add: Go_in_spawned)
      then have "retry r' \<le> 0 \<or> replayable rq" using assms(3) by (auto simp: r')
      from httpDo_total [OF bod this]
      obtain tr res where "httpDo r' rq = Some (Ok tr)" "sends tr = [res]" by blast
      then show ?thesis using 2 by (simp add: delivers_def)
    qed
  qed
  have total: "length (delivered r' evs) = length urls"
    using length_delivered [OF each] len by simp
  have drain: "\<forall>ch. mset ch = mset (delivered r' evs) \<longrightarrow>
             (\<exists>errs. Wait r' (map Receive ch) = Some (errs, []))"
  proof (intro allI impI)
    fix ch assume "mset ch = mset (delivered r' evs)"
    then have "length ch = length (delivered r' evs)" by (metis size_mset)
    then have "int (length ch) = qty r'" using total q by simp
    from Wait_drain [OF this, of "[]"] show "\<exists>errs. Wait r' (map Receive ch) = Some (errs, [])"
      by simp
  qed
  from q len each total drain show ?thesis by (intro conjI)
qed

theorem C1_one_result_per_target_witness:
  "length (delivered (fst four_targets) (snd four_targets)) = 4
   \<and> (\<exists>errs. Wait (fst four_targets) (map Receive (delivered (fst four_targets) (snd four_targets)))
         = Some (errs, []))"
proof -
  have d: "Do guarded (parse_but ''b'') (one_buffer []) ''GET'' None [''a'', ''b'', ''c'', ''d'']
             = (fst four_targets, snd four_targets)"
    by (simp add: four_targets_def)
  have b: "bodied (client guarded)"
    by (simp add: guarded_def resty_def bodied_stub_status)
  have s: "retry guarded \<le> 0 \<or> (\<forall>rq \<in> set (spawned (snd four_targets)). replayable rq)"
    by (simp add: four_targets_events replayable_get_req)
  from C1_one_result_per_target [OF d b s] show ?thesis by simp
qed

text \<open>
  C5. \<open>Do\<close> hands the one \<open>bodyReader\<close> to \<open>http.NewRequest\<close> for every url, so
  the requests of a batch share the caller's reader instead of each owning a body.
  With the body \<open>payload\<close> posted to two urls both requests read from the reader
  at address 0; the first transmission reads \<open>payload\<close> and leaves the reader
  empty, and the second transmits nothing.
\<close>

theorem C5_shared_body:
  "map Body (spawned (snd (DoPost (resty (stub_status 200) 3) (parse_but ''b'')
                            (one_buffer ''payload'') (Some (Buffer 0)) [''u1'', ''u2''])))
     = [Some (Caller 0), Some (Caller 0)]
   \<and> map Body (spawned (snd (DoPut (resty (stub_status 200) 3) (parse_but ''b'')
                            (one_buffer ''payload'') (Some (Buffer 0)) [''u1'', ''u2''])))
     = [Some (Caller 0), Some (Caller 0)]
   \<and> transmit (one_buffer ''payload'') (Some (Caller 0))
       = (''payload'', (one_buffer ''payload'')(0 := []))
   \<and> fst (transmit ((one_buffer ''payload'')(0 := [])) (Some (Caller 0))) = []"
  by (simp add: DoPost_def DoPut_def Do_def Let_def NewRequest_def Header_Set_def parse_but_def
      resty_def one_buffer_def MethodPost_def MethodPut_def)

end
